theory Spec2Isabelle
  imports Main "HOL-Library.Sublist" "HOL-Library.Multiset"
begin

section \<open>Python strings\<close>

text \<open>
  A Python \<open>str\<close> is a sequence of Unicode code points, and \<open>len\<close>, slicing,
  \<open>str.strip\<close> and the \<open>re\<close> module all work on code points. A string is therefore
  modelled as a list of code points (natural numbers below \<open>0x110000\<close>), not as a list
  of bytes. An ASCII literal of the source is written \<open>ascii ''...''\<close>; the non-ASCII
  literals of \<open>app.py\<close> are given by their code points below.
\<close>

type_synonym ustring = "nat list"

definition ascii :: "string \<Rightarrow> ustring" where
  "ascii cs = map of_char cs"

text \<open>U+2014 EM DASH, the placeholder of \<open>fake_lookup\<close> and \<open>format_card\<close>.\<close>
definition EM_DASH :: ustring where
  "EM_DASH = [8212]"

text \<open>U+2022 BULLET.\<close>
definition BULLET :: ustring where
  "BULLET = [8226]"

text \<open>U+2705 WHITE HEAVY CHECK MARK, in the header of \<open>format_card\<close>.\<close>
definition CHECK_MARK :: ustring where
  "CHECK_MARK = [9989]"

text \<open>U+26D4 NO ENTRY followed by U+FE0F VARIATION SELECTOR-16.\<close>
definition NO_ENTRY :: ustring where
  "NO_ENTRY = [9940, 65039]"

text \<open>U+1F44B WAVING HAND SIGN.\<close>
definition WAVING_HAND :: ustring where
  "WAVING_HAND = [128075]"

text \<open>U+1F558 CLOCK FACE NINE OCLOCK.\<close>
definition CLOCK_NINE :: ustring where
  "CLOCK_NINE = [128344]"

subsection \<open>Character classes of the Python runtime\<close>

text \<open>
  \<open>str.isspace\<close>, which decides what \<open>str.strip()\<close> removes: the code points
  U+0009..U+000D, U+001C..U+0020, U+0085, U+00A0, U+1680, U+2000..U+200A, U+2028, U+2029,
  U+202F, U+205F and U+3000.
\<close>

definition is_space :: "nat \<Rightarrow> bool" where
  "is_space c \<longleftrightarrow>
     (9 \<le> c \<and> c \<le> 13) \<or> (28 \<le> c \<and> c \<le> 32) \<or> c = 133 \<or> c = 160 \<or> c = 5760 \<or>
     (8192 \<le> c \<and> c \<le> 8202) \<or> c = 8232 \<or> c = 8233 \<or> c = 8239 \<or> c = 8287 \<or> c = 12288"

text \<open>
  The decimal digits of Unicode (general category Nd, Unicode 14.0.0 as shipped with
  CPython 3.11), as inclusive ranges of code points. For a \<open>str\<close> pattern the class
  \<open>\d\<close> of \<open>re\<close> matches exactly these, not only \<open>0\<close>..\<open>9\<close>.
\<close>

definition decimal_ranges :: "(nat \<times> nat) list" where
  "decimal_ranges =
    [(48, 57), (1632, 1641), (1776, 1785), (1984, 1993), (2406, 2415), (2534, 2543),
     (2662, 2671), (2790, 2799), (2918, 2927), (3046, 3055), (3174, 3183), (3302, 3311),
     (3430, 3439), (3558, 3567), (3664, 3673), (3792, 3801), (3872, 3881), (4160, 4169),
     (4240, 4249), (6112, 6121), (6160, 6169), (6470, 6479), (6608, 6617), (6784, 6793),
     (6800, 6809), (6992, 7001), (7088, 7097), (7232, 7241), (7248, 7257), (42528, 42537),
     (43216, 43225), (43264, 43273), (43472, 43481), (43504, 43513), (43600, 43609),
     (44016, 44025), (65296, 65305), (66720, 66729), (68912, 68921), (69734, 69743),
     (69872, 69881), (69942, 69951), (70096, 70105), (70384, 70393), (70736, 70745),
     (70864, 70873), (71248, 71257), (71360, 71369), (71472, 71481), (71904, 71913),
     (72016, 72025), (72784, 72793), (73040, 73049), (73120, 73129), (92768, 92777),
     (92864, 92873), (93008, 93017), (120782, 120831), (123200, 123209), (123632, 123641),
     (125264, 125273), (130032, 130041)]"

definition is_decimal :: "nat \<Rightarrow> bool" where
  "is_decimal c = list_ex (\<lambda>(lo, hi). lo \<le> c \<and> c \<le> hi) decimal_ranges"

definition is_ascii_digit :: "nat \<Rightarrow> bool" where
  "is_ascii_digit c \<longleftrightarrow> 48 \<le> c \<and> c \<le> 57"

text \<open>
  The code points that an ASCII literal of a pattern matches under \<open>re.IGNORECASE\<close>
  (a \<open>str\<close> pattern, so Unicode case rules): a letter matches both of its ASCII cases,
  and besides \<open>i\<close> matches U+0130 and U+0131, \<open>s\<close> matches U+017F and \<open>k\<close> matches
  U+212A; any other ASCII character matches itself only.
\<close>

definition ignorecase_class :: "char \<Rightarrow> nat list" where
  "ignorecase_class ch =
     (let c = of_char ch :: nat;
          lo = (if 65 \<le> c \<and> c \<le> 90 then c + 32 else c)
      in if 97 \<le> lo \<and> lo \<le> 122
         then [lo, lo - 32] @
              (if lo = 105 then [304, 305] else if lo = 115 then [383]
               else if lo = 107 then [8490] else [])
         else [c])"

subsection \<open>str.strip\<close>

definition strip :: "ustring \<Rightarrow> ustring" where
  "strip s = rev (dropWhile is_space (rev (dropWhile is_space s)))"

section \<open>The regular expressions of the source\<close>

text \<open>
  The three patterns of \<open>app.py\<close> use literals, one character set, \<open>\d\<close>, the anchors
  \<open>^\<close> and \<open>$\<close>, alternation, capturing groups and greedy repetition of a single
  character item (\<open>?\<close>, \<open>+\<close>, \<open>{m,n}\<close>). The matcher below is the backtracking matcher of
  \<open>re\<close> on this fragment: it returns every way to match, in the order in which \<open>re\<close>
  tries them, and \<open>re\<close> takes the first.
\<close>

datatype item = Lit char | In "char list" | Digit

datatype regex =
    Eps
  | One item
  | Bol
  | Eol
  | Seq regex regex
  | Alt regex regex
  | Grp nat regex
  | Rep nat "nat option" item

fun item_match :: "bool \<Rightarrow> item \<Rightarrow> nat \<Rightarrow> bool" where
  "item_match ic (Lit ch) x = (if ic then x \<in> set (ignorecase_class ch) else x = of_char ch)"
| "item_match ic (In chs) x =
     list_ex (\<lambda>ch. if ic then x \<in> set (ignorecase_class ch) else x = of_char ch) chs"
| "item_match ic Digit x = is_decimal x"

text \<open>
  A matcher state: the number of characters consumed since the start of the subject,
  the rest of the subject, and the groups captured so far.
\<close>

type_synonym mstate = "nat \<times> ustring \<times> (nat \<rightharpoonup> ustring)"

fun run :: "bool \<Rightarrow> regex \<Rightarrow> mstate \<Rightarrow> mstate list" where
  "run ic Eps st = [st]"
| "run ic (One c) (p, s, g) =
     (case s of [] \<Rightarrow> [] | x # xs \<Rightarrow> if item_match ic c x then [(Suc p, xs, g)] else [])"
| "run ic Bol (p, s, g) = (if p = 0 then [(p, s, g)] else [])"
| "run ic Eol (p, s, g) = (if s = [] \<or> s = [10] then [(p, s, g)] else [])"
| "run ic (Seq a b) st = concat (map (run ic b) (run ic a st))"
| "run ic (Alt a b) st = run ic a st @ run ic b st"
| "run ic (Grp n r) (p, s, g) =
     map (\<lambda>(p', s', g'). (p', s', g'(n \<mapsto> take (p' - p) s))) (run ic r (p, s, g))"
| "run ic (Rep lo hi c) (p, s, g) =
     (let k = length (takeWhile (item_match ic c) s);
          k' = (case hi of None \<Rightarrow> k | Some h \<Rightarrow> min h k)
      in map (\<lambda>j. (p + j, drop j s, g)) (rev [lo..<Suc k']))"

text \<open>\<open>pattern.match(s)\<close>: the pattern is tried at the start of \<open>s\<close> only.\<close>

definition re_match :: "bool \<Rightarrow> regex \<Rightarrow> ustring \<Rightarrow> mstate option" where
  "re_match ic r s = (case run ic r (0, s, Map.empty) of [] \<Rightarrow> None | st # _ \<Rightarrow> Some st)"

text \<open>\<open>re.search\<close>: the pattern is tried at every offset, from left to right.\<close>

fun search_from :: "bool \<Rightarrow> regex \<Rightarrow> nat \<Rightarrow> ustring \<Rightarrow> mstate option" where
  "search_from ic r p [] = (case run ic r (p, [], Map.empty) of [] \<Rightarrow> None | st # _ \<Rightarrow> Some st)"
| "search_from ic r p (x # xs) =
     (case run ic r (p, x # xs, Map.empty) of
        [] \<Rightarrow> search_from ic r (Suc p) xs
      | st # _ \<Rightarrow> Some st)"

definition re_search :: "bool \<Rightarrow> regex \<Rightarrow> ustring \<Rightarrow> mstate option" where
  "re_search ic r s = search_from ic r 0 s"

text \<open>A literal word, and a chain of items.\<close>

fun lits :: "string \<Rightarrow> regex" where
  "lits [] = Eps"
| "lits (c # cs) = Seq (One (Lit c)) (lits cs)"

text \<open>\<open>URL_RE = re.compile(r"^https?://", re.I)\<close>\<close>

definition URL_RE :: regex where
  "URL_RE = Seq Bol (Seq (lits ''http'') (Seq (Rep 0 (Some 1) (Lit CHR ''s'')) (lits ''://'')))"

text \<open>\<open>PERMIT_RE = re.compile(r"^\d{6,20}$")\<close>\<close>

definition PERMIT_RE :: regex where
  "PERMIT_RE = Seq Bol (Seq (Rep 6 (Some 20) Digit) Eol)"

text \<open>\<open>r"(unit|apt|apartment|flat)[\-_/ ]?(\d+)"\<close>, compiled with \<open>re.I\<close> in \<open>fake_lookup\<close>.\<close>

definition UNIT_RE :: regex where
  "UNIT_RE =
     Seq (Grp 1 (Alt (lits ''unit'') (Alt (lits ''apt'') (Alt (lits ''apartment'') (lits ''flat'')))))
         (Seq (Rep 0 (Some 1) (In ''-_/ '')) (Grp 2 (Rep 1 None Digit)))"

section \<open>Classifier\<close>

definition detect_type :: "ustring \<Rightarrow> ustring" where
  "detect_type text =
     (let t = strip text in
      if re_match True URL_RE t \<noteq> None then ascii ''listing_url''
      else if re_match False PERMIT_RE t \<noteq> None then ascii ''permit_number''
      else ascii ''text'')"

section \<open>Enricher\<close>

text \<open>
  The dictionary that \<open>fake_lookup\<close> builds and \<open>format_card\<close> reads. A field is
  \<open>None\<close> when the key is absent from the dictionary; \<open>fake_lookup\<close> sets all seven.
\<close>

record lookup_result =
  unit_number :: "ustring option"
  building :: "ustring option"
  project :: "ustring option"
  community :: "ustring option"
  permit_status :: "ustring option"
  input_type :: "ustring option"
  flags :: "ustring list option"

text \<open>\<open>m.group(n)\<close>: the text captured by group \<open>n\<close>, \<open>None\<close> if the group took no part.\<close>

fun group :: "nat \<Rightarrow> mstate \<Rightarrow> ustring option" where
  "group n (p, s, g) = g n"

definition fake_lookup :: "ustring \<Rightarrow> ustring \<Rightarrow> lookup_result" where
  "fake_lookup text itype =
     (let m = re_search True UNIT_RE text;
          unit_guess = (case m of None \<Rightarrow> None | Some st \<Rightarrow> group 2 st)
      in \<lparr> unit_number =
             Some (case unit_guess of None \<Rightarrow> EM_DASH
                   | Some u \<Rightarrow> if u = [] then EM_DASH else u),
           building = Some EM_DASH,
           project = Some EM_DASH,
           community = Some EM_DASH,
           permit_status = Some (ascii ''unknown''),
           input_type = Some itype,
           flags = Some [ascii ''No data source connected yet (MVP).''] \<rparr>)"

section \<open>Formatter\<close>

text \<open>The line feed, \<open>"\n"\<close>.\<close>
definition NL :: ustring where
  "NL = [10]"

text \<open>\<open>sep.join(xs)\<close>\<close>
fun join :: "ustring \<Rightarrow> ustring list \<Rightarrow> ustring" where
  "join sep [] = []"
| "join sep [x] = x"
| "join sep (x # y # ys) = x @ sep @ join sep (y # ys)"

text \<open>\<open>str(n)\<close> of an integer, as an f-string renders it: decimal, with a minus sign.\<close>

function str_nat :: "nat \<Rightarrow> ustring" where
  "str_nat n = (if n < 10 then [48 + n] else str_nat (n div 10) @ [48 + n mod 10])"
  by pat_completeness auto
termination
  by (relation "measure (\<lambda>n. n)") auto

definition str_int :: "int \<Rightarrow> ustring" where
  "str_int i = (if i < 0 then 45 # str_nat (nat (- i)) else str_nat (nat i))"

text \<open>\<open>d.get(key, default)\<close>\<close>
definition dict_get :: "'a option \<Rightarrow> 'a \<Rightarrow> 'a" where
  "dict_get v dflt = (case v of None \<Rightarrow> dflt | Some x \<Rightarrow> x)"

definition format_card :: "int \<Rightarrow> lookup_result \<Rightarrow> ustring" where
  "format_card check_id result =
     (let fl = dict_get (flags result) [];
          flag_text = (if fl \<noteq> [] then join NL (map (\<lambda>f. BULLET @ ascii '' '' @ f) fl)
                       else EM_DASH)
      in CHECK_MARK @ ascii '' Check #'' @ str_int check_id @ NL @ NL @
         ascii ''Unit: '' @ dict_get (unit_number result) EM_DASH @ NL @
         ascii ''Building: '' @ dict_get (building result) EM_DASH @ NL @
         ascii ''Project: '' @ dict_get (project result) EM_DASH @ NL @
         ascii ''Community: '' @ dict_get (community result) EM_DASH @ NL @
         ascii ''Permit: '' @ dict_get (permit_status result) (ascii ''unknown'') @ NL @
         ascii ''Type: '' @ dict_get (input_type result) EM_DASH @ NL @ NL @
         ascii ''Flags:'' @ NL @ flag_text)"

section \<open>Access gate\<close>

text \<open>
  \<open>ALLOWED_USER_IDS\<close> is read from the environment once, at import; it is a parameter
  of everything that consults it.
\<close>

definition is_allowed :: "int set \<Rightarrow> int \<Rightarrow> bool" where
  "is_allowed ALLOWED_USER_IDS uid \<longleftrightarrow> ALLOWED_USER_IDS = {} \<or> uid \<in> ALLOWED_USER_IDS"

section \<open>Store\<close>

text \<open>
  The table \<open>checks\<close> of the SQLite database: its rows in insertion order, and
  the counter that \<open>AUTOINCREMENT\<close> keeps in \<open>sqlite_sequence\<close> (the largest id ever
  assigned, 0 before the first insertion). Storage failures and the 64-bit limit of a
  rowid are outside the model: ids are unbounded integers.
\<close>

record check_row =
  row_id :: int
  user_id :: int
  payload :: ustring
  created_at :: ustring

record db =
  checks :: "check_row list"
  seq :: int

text \<open>
  \<open>init_db\<close>: \<open>CREATE TABLE IF NOT EXISTS\<close> creates the empty table on a fresh database
  file (\<open>None\<close>) and leaves an existing table as it is.
\<close>

definition init_db :: "db option \<Rightarrow> db" where
  "init_db file = (case file of None \<Rightarrow> \<lparr> checks = [], seq = 0 \<rparr> | Some d \<Rightarrow> d)"

text \<open>
  \<open>INSERT INTO checks(user_id, payload, created_at) VALUES(?,?,?)\<close>, returning the new
  state and \<open>cur.lastrowid\<close>. With \<open>AUTOINCREMENT\<close> the new id is one more than the
  largest id that the table holds or has ever held.
\<close>

definition insert_check :: "db \<Rightarrow> int \<Rightarrow> ustring \<Rightarrow> ustring \<Rightarrow> db \<times> int" where
  "insert_check d uid pl ts =
     (let new_id = fold max (map row_id (checks d)) (seq d) + 1;
          row = \<lparr> row_id = new_id, user_id = uid, payload = pl, created_at = ts \<rparr>
      in (\<lparr> checks = checks d @ [row], seq = new_id \<rparr>, new_id))"

text \<open>
  \<open>SELECT id, payload, created_at FROM checks WHERE user_id=? ORDER BY id DESC LIMIT n\<close>;
  \<open>cmd_last\<close> runs it with \<open>n = 5\<close>.
\<close>

definition select_recent :: "db \<Rightarrow> int \<Rightarrow> nat \<Rightarrow> (int \<times> ustring \<times> ustring) list" where
  "select_recent d uid n =
     take n (map (\<lambda>r. (row_id r, payload r, created_at r))
       (rev (sort_key row_id (filter (\<lambda>r. user_id r = uid) (checks d)))))"

section \<open>Dispatcher\<close>

text \<open>
  What a handler reads of a Telegram \<open>Update\<close>: \<open>update.effective_user\<close> (here the
  user's \<open>id\<close>, the only attribute used) and \<open>update.message\<close> with its \<open>text\<close>; each
  may be \<open>None\<close>. A handler returns the replies it sent with \<open>reply_text\<close>, in order,
  and the database it leaves; an exception that leaves the handler is an error value.
\<close>

record message =
  msg_text :: "ustring option"

record update =
  effective_user :: "int option"
  message :: "message option"

datatype error = AttributeError

type_synonym outcome = "error + (ustring list \<times> db)"

definition PRIVATE_BOT :: ustring where
  "PRIVATE_BOT = NO_ENTRY @ ascii '' Private bot.''"

definition cmd_start :: "int set \<Rightarrow> update \<Rightarrow> db \<Rightarrow> outcome" where
  "cmd_start allowed upd d =
     (case effective_user upd of None \<Rightarrow> Inr ([], d)
      | Some u \<Rightarrow>
         (case message upd of None \<Rightarrow> Inr ([], d)
          | Some msg \<Rightarrow>
             if \<not> is_allowed allowed u then Inr ([PRIVATE_BOT], d)
             else Inr ([WAVING_HAND @ ascii '' Private Unit Bot'' @ NL @ NL @
                        ascii ''Plak een listing link of permit number.'' @ NL @
                        ascii ''Commands: /help  /last''], d)))"

definition cmd_help :: "int set \<Rightarrow> update \<Rightarrow> db \<Rightarrow> outcome" where
  "cmd_help allowed upd d =
     (case effective_user upd of None \<Rightarrow> Inr ([], d)
      | Some u \<Rightarrow>
         (case message upd of None \<Rightarrow> Inr ([], d)
          | Some msg \<Rightarrow>
             if \<not> is_allowed allowed u then Inr ([PRIVATE_BOT], d)
             else Inr ([ascii ''Send:'' @ NL @ ascii ''- listing link'' @ NL @
                        ascii ''- permit number'' @ NL @ NL @ ascii ''Commands:'' @ NL @
                        ascii ''/last (laatste 5 checks)''], d)))"

text \<open>One line of the \<open>/last\<close> reply, for one row of the query.\<close>

definition last_line :: "int \<times> ustring \<times> ustring \<Rightarrow> ustring" where
  "last_line r =
     (case r of (i, pl, ts) \<Rightarrow>
        ascii ''#'' @ str_int i @ ascii '' '' @ EM_DASH @ ascii '' '' @ take 60 pl @
        ascii '' ('' @ ts @ ascii '')'')"

definition cmd_last :: "int set \<Rightarrow> update \<Rightarrow> db \<Rightarrow> outcome" where
  "cmd_last allowed upd d =
     (case effective_user upd of None \<Rightarrow> Inr ([], d)
      | Some u \<Rightarrow>
         (case message upd of None \<Rightarrow> Inr ([], d)
          | Some msg \<Rightarrow>
             if \<not> is_allowed allowed u then Inr ([PRIVATE_BOT], d)
             else
               (let rows = select_recent d u 5 in
                if rows = [] then Inr ([ascii ''Nog geen checks.''], d)
                else
                  (let lines = [CLOCK_NINE @ ascii '' Laatste checks:''] @ map last_line rows
                   in Inr ([join NL lines], d)))))"

text \<open>
  \<open>on_text\<close>; \<open>now\<close> is what \<open>datetime.utcnow().isoformat()\<close> returns when the handler
  runs. A message without text makes \<open>update.message.text.strip()\<close> raise; the handler
  is registered under \<open>filters.TEXT\<close>, which lets no such message through.
\<close>

definition on_text :: "int set \<Rightarrow> ustring \<Rightarrow> update \<Rightarrow> db \<Rightarrow> outcome" where
  "on_text allowed now upd d =
     (case effective_user upd of None \<Rightarrow> Inr ([], d)
      | Some u \<Rightarrow>
         (case message upd of None \<Rightarrow> Inr ([], d)
          | Some msg \<Rightarrow>
             if \<not> is_allowed allowed u then Inr ([PRIVATE_BOT], d)
             else
               (case msg_text msg of None \<Rightarrow> Inl AttributeError
                | Some txt \<Rightarrow>
                   (let pl = strip txt;
                        itype = detect_type pl;
                        result = fake_lookup pl itype;
                        ts = now @ ascii ''Z'';
                        (d', check_id) = insert_check d u pl ts
                    in Inr ([ascii ''(debug) your_user_id='' @ str_int u @ NL @ NL @
                             format_card check_id result], d')))))"

section \<open>The specification's reading of the operations\<close>

text \<open>
  A pattern word is a prefix of \<open>s\<close>, character by character, exactly (\<open>ic = False\<close>) or
  ignoring case (\<open>ic = True\<close>).
\<close>

fun lit_prefix :: "bool \<Rightarrow> string \<Rightarrow> ustring \<Rightarrow> bool" where
  "lit_prefix ic [] s = True"
| "lit_prefix ic (c # cs) [] = False"
| "lit_prefix ic (c # cs) (x # xs) = (item_match ic (Lit c) x \<and> lit_prefix ic cs xs)"

text \<open>
  The classifier as the specification words it: trim; a URL prefix gives \<open>listing_url\<close>;
  otherwise 6 to 20 ASCII digits and nothing else give \<open>permit_number\<close>; otherwise \<open>text\<close>.
\<close>

definition classify_spec :: "ustring \<Rightarrow> ustring" where
  "classify_spec text =
     (let t = strip text in
      if lit_prefix True ''http://'' t \<or> lit_prefix True ''https://'' t then ascii ''listing_url''
      else if 6 \<le> length t \<and> length t \<le> 20 \<and> list_all is_ascii_digit t
        then ascii ''permit_number''
      else ascii ''text'')"

text \<open>
  The enricher as the specification words it. \<open>digits_after r\<close>: at most one separator
  from \<open>-\<close>, \<open>_\<close>, \<open>/\<close>, space at the head of \<open>r\<close>, then the run of digits that follows
  immediately, if it is not empty. \<open>unit_at s\<close>: one of the four words, ignoring case,
  at the head of \<open>s\<close>, followed in that way by digits. \<open>first_unit\<close>: the first
  occurrence anywhere in the text.
\<close>

definition separators :: "nat list" where
  "separators = [45, 95, 47, 32]"

definition unit_words :: "string list" where
  "unit_words = [''unit'', ''apt'', ''apartment'', ''flat'']"

definition digits_after :: "ustring \<Rightarrow> ustring option" where
  "digits_after r =
     (let r' = (case r of [] \<Rightarrow> [] | c # cs \<Rightarrow> if c \<in> set separators then cs else r);
          ds = takeWhile is_decimal r'
      in if ds = [] then None else Some ds)"

definition word_then_digits :: "ustring \<Rightarrow> string \<Rightarrow> ustring option" where
  "word_then_digits s w =
     (if lit_prefix True w s then digits_after (drop (length w) s) else None)"

definition unit_at :: "ustring \<Rightarrow> ustring option" where
  "unit_at s = (case List.map_filter (word_then_digits s) unit_words of
                  [] \<Rightarrow> None | ds # _ \<Rightarrow> Some ds)"

fun first_unit :: "ustring \<Rightarrow> ustring option" where
  "first_unit [] = None"
| "first_unit (c # cs) =
     (case unit_at (c # cs) of Some ds \<Rightarrow> Some ds | None \<Rightarrow> first_unit cs)"

definition enrich_spec :: "ustring \<Rightarrow> ustring \<Rightarrow> lookup_result" where
  "enrich_spec text category =
     \<lparr> unit_number = Some (case first_unit text of None \<Rightarrow> EM_DASH | Some ds \<Rightarrow> ds),
       building = Some EM_DASH,
       project = Some EM_DASH,
       community = Some EM_DASH,
       permit_status = Some (ascii ''unknown''),
       input_type = Some category,
       flags = Some [ascii ''No data source connected yet (MVP).''] \<rparr>"

text \<open>The ids of a table increase strictly in insertion order; then no two rows share one.\<close>

definition ids_increasing :: "db \<Rightarrow> bool" where
  "ids_increasing d \<longleftrightarrow> sorted_wrt (<) (map row_id (checks d))"

section \<open>Lemmas about the matcher\<close>

lemma run_lits:
  "run ic (lits w) (p, s, g) =
     (if lit_prefix ic w s then [(p + length w, drop (length w) s, g)] else [])"
proof (induction w arbitrary: p s)
  case Nil
  show ?case by simp
next
  case (Cons c cs)
  show ?case
  proof (cases s)
    case Nil
    then show ?thesis by simp
  next
    case (Cons x xs)
    then show ?thesis using Cons.IH [of "Suc p" xs] by auto
  qed
qed

lemma run_Seq_lits:
  "run ic (Seq (lits w) r) (p, s, g) =
     (if lit_prefix ic w s then run ic r (p + length w, drop (length w) s, g) else [])"
  by (simp add: run_lits)

declare lits.simps [simp del]

lemma lit_prefix_append:
  "lit_prefix ic (a @ b) s \<longleftrightarrow> lit_prefix ic a s \<and> lit_prefix ic b (drop (length a) s)"
proof (induction a arbitrary: s)
  case Nil
  show ?case by simp
next
  case (Cons c cs)
  show ?case by (cases s) (simp_all add: Cons.IH)
qed

lemma run_optional:
  "run ic (Rep 0 (Some (Suc 0)) c) (p, s, g) =
     (case s of [] \<Rightarrow> [(p, [], g)]
      | x # xs \<Rightarrow> if item_match ic c x then [(Suc p, xs, g), (p, s, g)] else [(p, s, g)])"
  by (cases s) (simp_all add: Let_def)

lemma re_match_None_iff: "re_match ic r s \<noteq> None \<longleftrightarrow> run ic r (0, s, Map.empty) \<noteq> []"
  by (simp add: re_match_def split: list.splits)

lemma url_run_iff:
  "run True URL_RE (0, t, g) \<noteq> [] \<longleftrightarrow>
     lit_prefix True ''http://'' t \<or> lit_prefix True ''https://'' t"
proof -
  define r where "r = drop (length ''http'') t"
  have split1: "lit_prefix True ''http://'' t \<longleftrightarrow>
      lit_prefix True ''http'' t \<and> lit_prefix True ''://'' r"
    using lit_prefix_append [of True "''http''" "''://''" t] by (simp add: r_def)
  have split2: "lit_prefix True ''https://'' t \<longleftrightarrow>
      lit_prefix True ''http'' t \<and> lit_prefix True (CHR ''s'' # ''://'') r"
    using lit_prefix_append [of True "''http''" "CHR ''s'' # ''://''" t] by (simp add: r_def)
  have run1: "run True URL_RE (0, t, g) =
      (if lit_prefix True ''http'' t
       then concat (map (run True (lits ''://''))
              (run True (Rep 0 (Some (Suc 0)) (Lit CHR ''s'')) (length ''http'', r, g)))
       else [])"
    unfolding URL_RE_def r_def by (simp add: run_lits)
  have run2: "concat (map (run True (lits ''://''))
              (run True (Rep 0 (Some (Suc 0)) (Lit CHR ''s'')) (p, r, g))) \<noteq> [] \<longleftrightarrow>
      lit_prefix True ''://'' r \<or> lit_prefix True (CHR ''s'' # ''://'') r" for p
    by (cases r) (auto simp: run_optional run_lits)
  show ?thesis
    unfolding run1 split1 split2 using run2 by (auto simp del: run.simps(8))
qed

lemma url_match_iff:
  "re_match True URL_RE t \<noteq> None \<longleftrightarrow>
     lit_prefix True ''http://'' t \<or> lit_prefix True ''https://'' t"
  by (simp only: re_match_None_iff url_run_iff)

lemma strip_last: "strip s = [] \<or> \<not> is_space (last (strip s))"
proof (cases "dropWhile is_space (rev (dropWhile is_space s))")
  case Nil
  then show ?thesis by (simp add: strip_def)
next
  case (Cons x xs)
  then have "\<not> is_space x" using hd_dropWhile [of is_space "rev (dropWhile is_space s)"] by simp
  with Cons show ?thesis by (simp add: strip_def)
qed

lemma item_match_Digit: "item_match ic Digit = is_decimal"
  by (rule ext) simp

lemma run_Rep_set:
  "set (run ic (Rep lo hi c) (p, s, g)) =
     {(p + j, drop j s, g) | j. lo \<le> j \<and> j \<le> length (takeWhile (item_match ic c) s) \<and>
        (case hi of None \<Rightarrow> True | Some h \<Rightarrow> j \<le> h)}"
  by (cases hi) (auto simp: Let_def)

lemma concat_map_nonempty: "concat (map f xs) \<noteq> [] \<longleftrightarrow> (\<exists>x\<in>set xs. f x \<noteq> [])"
  by (induction xs) auto

lemma run_permit:
  "run False PERMIT_RE (0, t, g) \<noteq> [] \<longleftrightarrow>
     (\<exists>j. 6 \<le> j \<and> j \<le> 20 \<and> j \<le> length (takeWhile is_decimal t) \<and>
          (drop j t = [] \<or> drop j t = [10]))"
proof -
  have unf: "run False PERMIT_RE (0, t, g) =
        concat (map (run False Eol) (run False (Rep 6 (Some 20) Digit) (0, t, g)))"
    by (simp add: PERMIT_RE_def del: run.simps(8))
  show ?thesis
    unfolding unf concat_map_nonempty run_Rep_set item_match_Digit by auto
qed

lemma permit_match_iff:
  assumes "t = [] \<or> \<not> is_space (last t)"
  shows "re_match False PERMIT_RE t \<noteq> None \<longleftrightarrow>
           6 \<le> length t \<and> length t \<le> 20 \<and> list_all is_decimal t"
proof -
  let ?k = "length (takeWhile is_decimal t)"
  have nl: "drop j t \<noteq> [10]" for j
  proof
    assume d: "drop j t = [10]"
    then have "t \<noteq> []" by auto
    moreover have "last t = last (drop j t)" using d by (metis last_drop list.discI drop_eq_Nil not_le)
    ultimately show False using assms d by (simp add: is_space_def)
  qed
  have full: "?k = length t \<longleftrightarrow> list_all is_decimal t"
    by (metis list_all_iff length_append takeWhile_dropWhile_id
          append_self_conv dropWhile_eq_Nil_conv add_cancel_right_right length_0_conv)
  show ?thesis
  proof
    assume "re_match False PERMIT_RE t \<noteq> None"
    then have "\<exists>j. 6 \<le> j \<and> j \<le> 20 \<and> j \<le> ?k \<and> (drop j t = [] \<or> drop j t = [10])"
      unfolding re_match_None_iff run_permit .
    then obtain j where j: "6 \<le> j" "j \<le> 20" "j \<le> ?k" "drop j t = []"
      using nl by blast
    have "?k \<le> length t" by (rule length_takeWhile_le)
    with j have "j = length t" "?k = length t" by auto
    with j full show "6 \<le> length t \<and> length t \<le> 20 \<and> list_all is_decimal t" by auto
  next
    assume a: "6 \<le> length t \<and> length t \<le> 20 \<and> list_all is_decimal t"
    with full have "?k = length t" by simp
    with a show "re_match False PERMIT_RE t \<noteq> None"
      unfolding re_match_None_iff run_permit by (intro exI [of _ "length t"]) simp
  qed
qed

lemma is_ascii_digit_decimal: "is_ascii_digit c \<Longrightarrow> is_decimal c"
  by (simp add: is_ascii_digit_def is_decimal_def decimal_ranges_def)

lemma ascii_digit_not_space: "is_ascii_digit c \<Longrightarrow> \<not> is_space c"
  by (simp add: is_ascii_digit_def is_space_def)

lemma strip_id:
  assumes "s = [] \<or> (\<not> is_space (hd s) \<and> \<not> is_space (last s))"
  shows "strip s = s"
proof (cases s)
  case Nil
  then show ?thesis by (simp add: strip_def)
next
  case (Cons x xs)
  with assms have h: "\<not> is_space (hd s)" and l: "\<not> is_space (last s)" by auto
  from Cons h have d1: "dropWhile is_space s = s" by simp
  from Cons have "hd (rev s) = last s" by (metis hd_rev list.discI)
  with l have "\<not> is_space (hd (rev s))" by simp
  moreover from Cons have "rev s \<noteq> []" by simp
  ultimately have "dropWhile is_space (rev s) = rev s" by (cases "rev s") auto
  with d1 show ?thesis by (simp add: strip_def)
qed

lemma strip_ascii_digits: "list_all is_ascii_digit s \<Longrightarrow> strip s = s"
proof (rule strip_id)
  assume a: "list_all is_ascii_digit s"
  show "s = [] \<or> (\<not> is_space (hd s) \<and> \<not> is_space (last s))"
  proof (cases "s = []")
    case True then show ?thesis by simp
  next
    case False
    then have "hd s \<in> set s" "last s \<in> set s" by simp_all
    with a have "is_ascii_digit (hd s)" "is_ascii_digit (last s)" by (simp_all add: list_all_iff)
    then show ?thesis by (simp add: ascii_digit_not_space)
  qed
qed

lemma ascii_digits_no_url:
  assumes "list_all is_ascii_digit s"
  shows "\<not> lit_prefix True ''http://'' s" and "\<not> lit_prefix True ''https://'' s"
  using assms by (cases s; simp add: is_ascii_digit_def ignorecase_class_def)+

section \<open>Classifier: the decision order\<close>

text \<open>
  Claim C1, as the code has it. \<open>detect_type\<close> is a total function, and on every input
  it decides in this order: trim the whitespace; if the trimmed string starts with
  \<open>http://\<close> or \<open>https://\<close>, ignoring case as \<open>re.IGNORECASE\<close> does, the result is
  \<open>listing_url\<close>; otherwise, if the trimmed string consists of 6 to 20 decimal digits
  of Unicode (the class \<open>\d\<close> of a \<open>str\<close> pattern, the ASCII digits among them) and
  nothing else, the result is \<open>permit_number\<close>; otherwise it is \<open>text\<close>. In
  particular a string of ASCII digits only is a \<open>permit_number\<close> when its length is
  between 6 and 20 and \<open>text\<close> otherwise, so at length 5 and at length 21.
\<close>

theorem detect_type_decision:
  "detect_type inp =
     (let t = strip inp in
      if lit_prefix True ''http://'' t \<or> lit_prefix True ''https://'' t then ascii ''listing_url''
      else if 6 \<le> length t \<and> length t \<le> 20 \<and> list_all is_decimal t then ascii ''permit_number''
      else ascii ''text'')
   \<and> (list_all is_ascii_digit inp \<longrightarrow>
        detect_type inp =
          (if 6 \<le> length inp \<and> length inp \<le> 20 then ascii ''permit_number'' else ascii ''text''))"
proof -
  have dec: "detect_type s =
     (let t = strip s in
      if lit_prefix True ''http://'' t \<or> lit_prefix True ''https://'' t then ascii ''listing_url''
      else if 6 \<le> length t \<and> length t \<le> 20 \<and> list_all is_decimal t then ascii ''permit_number''
      else ascii ''text'')" for s
    unfolding detect_type_def Let_def url_match_iff permit_match_iff [OF strip_last] ..
  have "detect_type inp =
          (if 6 \<le> length inp \<and> length inp \<le> 20 then ascii ''permit_number'' else ascii ''text'')"
    if a: "list_all is_ascii_digit inp"
  proof -
    have "list_all is_decimal inp"
      using a by (simp add: list_all_iff is_ascii_digit_decimal)
    then show ?thesis
      unfolding dec [of inp] Let_def strip_ascii_digits [OF a]
      using ascii_digits_no_url [OF a] by simp
  qed
  with dec [of inp] show ?thesis by blast
qed

text \<open>The theorem at the five digits \<open>12345\<close> and at the six digits \<open>123456\<close>.\<close>

theorem detect_type_decision_witness:
  "list_all is_ascii_digit (ascii ''12345'') \<and> detect_type (ascii ''12345'') = ascii ''text'' \<and>
   list_all is_ascii_digit (ascii ''123456'') \<and> detect_type (ascii ''123456'') = ascii ''permit_number''"
proof -
  have a: "list_all is_ascii_digit (ascii ''12345'')" by (simp add: ascii_def is_ascii_digit_def)
  have b: "list_all is_ascii_digit (ascii ''123456'')" by (simp add: ascii_def is_ascii_digit_def)
  from a b detect_type_decision [of "ascii ''12345''", THEN conjunct2]
    detect_type_decision [of "ascii ''123456''", THEN conjunct2]
  show ?thesis by (simp add: ascii_def)
qed

text \<open>
  Claim C1 as the specification words it, with ASCII digits only, fails: six
  ARABIC-INDIC digits (U+0661..U+0666) are a \<open>permit_number\<close> for the code and
  \<open>text\<close> for the specification's reading.
\<close>

theorem detect_type_unicode_digits_counterexample:
  "detect_type [1633, 1634, 1635, 1636, 1637, 1638] = ascii ''permit_number'' \<and>
   classify_spec [1633, 1634, 1635, 1636, 1637, 1638] = ascii ''text'' \<and>
   ascii ''permit_number'' \<noteq> ascii ''text''"
  by (simp add: detect_type_def classify_spec_def strip_def is_space_def re_match_def
      URL_RE_def PERMIT_RE_def lits.simps ignorecase_class_def is_decimal_def decimal_ranges_def
      is_ascii_digit_def ascii_def Let_def)


section \<open>Access gate: the rule\<close>

text \<open>
  Claim C3. When the configured allow-set is empty, \<open>is_allowed\<close> holds of every user
  id; when it is not empty, \<open>is_allowed\<close> holds of a user id exactly when the id is a
  member of the set.
\<close>

theorem is_allowed_rule:
  "(A = {} \<longrightarrow> is_allowed A u) \<and> (A \<noteq> {} \<longrightarrow> (is_allowed A u \<longleftrightarrow> u \<in> A))"
  by (simp add: is_allowed_def)

text \<open>The rule at the empty set, and at the set \<open>{1, 2}\<close> for a member and a non-member.\<close>

theorem is_allowed_rule_witness:
  "is_allowed {} 7 \<and> ({1, 2} \<noteq> ({} :: int set) \<and> is_allowed {1, 2} 2 \<and> \<not> is_allowed {1, 2} 3)"
  using is_allowed_rule [of "{}" 7] is_allowed_rule [of "{1, 2}" 2] is_allowed_rule [of "{1, 2}" 3]
  by simp

section \<open>Dispatcher: refusal, dropped events, what is persisted\<close>

text \<open>
  Claim C7. When an update carries a user and a message and the user is not allowed,
  each of the four handlers (plain text, \<open>/start\<close>, \<open>/help\<close>, \<open>/last\<close>) sends exactly
  one reply, the fixed refusal string (U+26D4 U+FE0F followed by \<open>" Private bot."\<close>), and
  leaves the database as it was: nothing is inserted.
\<close>

theorem disallowed_refused:
  assumes "effective_user upd = Some u" and "message upd = Some m"
    and "\<not> is_allowed allowed u"
  shows "on_text allowed now upd d = Inr ([NO_ENTRY @ ascii '' Private bot.''], d) \<and>
         cmd_start allowed upd d = Inr ([NO_ENTRY @ ascii '' Private bot.''], d) \<and>
         cmd_help allowed upd d = Inr ([NO_ENTRY @ ascii '' Private bot.''], d) \<and>
         cmd_last allowed upd d = Inr ([NO_ENTRY @ ascii '' Private bot.''], d)"
  using assms by (simp add: on_text_def cmd_start_def cmd_help_def cmd_last_def PRIVATE_BOT_def)

text \<open>User 2 against the allow-set \<open>{1}\<close>, on the fresh database.\<close>

theorem disallowed_refused_witness:
  "effective_user \<lparr>effective_user = Some 2, message = Some \<lparr>msg_text = Some (ascii ''hi'')\<rparr>\<rparr> = Some 2 \<and>
   \<not> is_allowed {1} 2 \<and>
   on_text {1} (ascii ''2024-01-01T00:00:00'')
     \<lparr>effective_user = Some 2, message = Some \<lparr>msg_text = Some (ascii ''hi'')\<rparr>\<rparr> (init_db None)
     = Inr ([NO_ENTRY @ ascii '' Private bot.''], init_db None) \<and>
   cmd_last {1}
     \<lparr>effective_user = Some 2, message = Some \<lparr>msg_text = Some (ascii ''hi'')\<rparr>\<rparr> (init_db None)
     = Inr ([NO_ENTRY @ ascii '' Private bot.''], init_db None)"
proof -
  have na: "\<not> is_allowed {1} 2" by (simp add: is_allowed_def)
  show ?thesis
    using na disallowed_refused [of "\<lparr>effective_user = Some 2, message = Some \<lparr>msg_text = Some (ascii ''hi'')\<rparr>\<rparr>"
        2 "\<lparr>msg_text = Some (ascii ''hi'')\<rparr>" "{1}" "ascii ''2024-01-01T00:00:00''" "init_db None"]
    by simp
qed

text \<open>
  Claim C9. An update without an effective user, or without a message, is dropped by
  each of the four handlers: no reply is sent, the database is unchanged and no error
  is raised, whatever the allow-set is.
\<close>

theorem malformed_event_dropped:
  assumes "effective_user upd = None \<or> message upd = None"
  shows "on_text allowed now upd d = Inr ([], d) \<and>
         cmd_start allowed upd d = Inr ([], d) \<and>
         cmd_help allowed upd d = Inr ([], d) \<and>
         cmd_last allowed upd d = Inr ([], d)"
  using assms
  by (auto simp: on_text_def cmd_start_def cmd_help_def cmd_last_def split: option.splits)

text \<open>
  An update without a message from a user of the open allow-set, and an update with a
  message and no user.
\<close>

theorem malformed_event_dropped_witness:
  "is_allowed {} 5 \<and>
   on_text {} (ascii ''2024-01-01T00:00:00'') \<lparr>effective_user = Some 5, message = None\<rparr> (init_db None)
     = Inr ([], init_db None) \<and>
   cmd_start {} \<lparr>effective_user = None, message = Some \<lparr>msg_text = Some (ascii ''/start'')\<rparr>\<rparr> (init_db None)
     = Inr ([], init_db None)"
  using malformed_event_dropped [of "\<lparr>effective_user = Some 5, message = None\<rparr>" "{}"
      "ascii ''2024-01-01T00:00:00''" "init_db None"]
    malformed_event_dropped [of "\<lparr>effective_user = None, message = Some \<lparr>msg_text = Some (ascii ''/start'')\<rparr>\<rparr>"
      "{}" "ascii ''2024-01-01T00:00:00''" "init_db None"]
  by (simp add: is_allowed_def)

text \<open>
  Claim C10, as the code has it. For a plain-text message from an allowed user,
  \<open>on_text\<close> appends exactly one row: its id is the next id of the table, its user id
  is the sender's, its payload is the message text with leading and trailing whitespace
  removed (so the raw text exactly when it has none), and its \<open>created_at\<close> is the clock
  reading of the handler followed by \<open>Z\<close>, which no part of the update enters.
\<close>

theorem on_text_persists:
  assumes "effective_user upd = Some u" and "message upd = Some m"
    and "msg_text m = Some inp" and "is_allowed allowed u"
  shows "on_text allowed now upd d =
           Inr ([ascii ''(debug) your_user_id='' @ str_int u @ NL @ NL @
                 format_card (fold max (map row_id (checks d)) (seq d) + 1)
                   (fake_lookup (strip inp) (detect_type (strip inp)))],
                \<lparr> checks = checks d @
                    [\<lparr> row_id = fold max (map row_id (checks d)) (seq d) + 1, user_id = u,
                       payload = strip inp, created_at = now @ ascii ''Z'' \<rparr>],
                  seq = fold max (map row_id (checks d)) (seq d) + 1 \<rparr>)"
  using assms by (simp add: on_text_def insert_check_def Let_def)

text \<open>User 1 sends a space followed by \<open>a\<close> to the fresh database; the allow-set is open.\<close>

theorem on_text_persists_witness:
  "is_allowed {} 1 \<and>
   on_text {} (ascii ''2024-01-01T00:00:00'')
     \<lparr>effective_user = Some 1, message = Some \<lparr>msg_text = Some [32, 97]\<rparr>\<rparr> (init_db None) =
     Inr ([ascii ''(debug) your_user_id='' @ str_int 1 @ NL @ NL @
           format_card 1 (fake_lookup [97] (detect_type [97]))],
          \<lparr> checks = [\<lparr> row_id = 1, user_id = 1, payload = [97],
                        created_at = ascii ''2024-01-01T00:00:00'' @ ascii ''Z'' \<rparr>],
            seq = 1 \<rparr>)"
proof -
  have al: "is_allowed {} 1" by (simp add: is_allowed_def)
  have st: "strip [32, 97] = [97]" by (simp add: strip_def is_space_def)
  show ?thesis
    using al on_text_persists [of "\<lparr>effective_user = Some 1, message = Some \<lparr>msg_text = Some [32, 97]\<rparr>\<rparr>"
        1 "\<lparr>msg_text = Some [32, 97]\<rparr>" "[32, 97]" "{}" "ascii ''2024-01-01T00:00:00''" "init_db None"]
    by (simp add: st init_db_def)
qed

text \<open>
  Claim C10 as the specification words it, with the raw text as payload, fails: for the
  text made of a space and \<open>a\<close>, the payload stored is \<open>a\<close> alone.
\<close>

theorem payload_not_raw_counterexample:
  "map payload (checks (snd (projr (on_text {} (ascii ''2024-01-01T00:00:00'')
      \<lparr>effective_user = Some 1, message = Some \<lparr>msg_text = Some [32, 97]\<rparr>\<rparr> (init_db None)))))
   = [[97]] \<and> [97] \<noteq> [32, 97 :: nat]"
  by (simp add: on_text_def is_allowed_def insert_check_def init_db_def Let_def strip_def is_space_def)


section \<open>Formatter: the template\<close>

lemma join_Cons: "xs \<noteq> [] \<Longrightarrow> join sep (x # xs) = x @ sep @ join sep xs"
  by (cases xs) simp_all

text \<open>
  Claim C6. \<open>format_card\<close> renders a fixed template, one line after the other: the
  header with the check id, an empty line, the labelled lines \<open>Unit\<close>, \<open>Building\<close>,
  \<open>Project\<close>, \<open>Community\<close>, \<open>Permit\<close> and \<open>Type\<close> in this order, an empty line, the
  line \<open>Flags:\<close>, and then one line per flag, each after a bullet and a space, or the
  single line U+2014 when there is no flag. A missing field is rendered as U+2014, a
  missing permit status as \<open>unknown\<close>. For the check id 7 and the example result of
  the specification this is the header \<open>Check #7\<close> and one bullet line.
\<close>

theorem format_card_template:
  "format_card i r =
     join NL
       ([CHECK_MARK @ ascii '' Check #'' @ str_int i,
         [],
         ascii ''Unit: '' @ dict_get (unit_number r) EM_DASH,
         ascii ''Building: '' @ dict_get (building r) EM_DASH,
         ascii ''Project: '' @ dict_get (project r) EM_DASH,
         ascii ''Community: '' @ dict_get (community r) EM_DASH,
         ascii ''Permit: '' @ dict_get (permit_status r) (ascii ''unknown''),
         ascii ''Type: '' @ dict_get (input_type r) EM_DASH,
         [],
         ascii ''Flags:''] @
        (case dict_get (flags r) [] of
           [] \<Rightarrow> [EM_DASH]
         | f # fs \<Rightarrow> map (\<lambda>x. BULLET @ ascii '' '' @ x) (f # fs)))
   \<and> dict_get None EM_DASH = EM_DASH
   \<and> dict_get None (ascii ''unknown'') = ascii ''unknown''
   \<and> format_card 7
         \<lparr> unit_number = Some (ascii ''5''), building = Some EM_DASH, project = Some EM_DASH,
           community = Some EM_DASH, permit_status = Some (ascii ''unknown''),
           input_type = Some (ascii ''text''),
           flags = Some [ascii ''No data source connected yet (MVP).''] \<rparr> =
       CHECK_MARK @ ascii '' Check #7'' @ NL @ NL @
       ascii ''Unit: 5'' @ NL @
       ascii ''Building: '' @ EM_DASH @ NL @
       ascii ''Project: '' @ EM_DASH @ NL @
       ascii ''Community: '' @ EM_DASH @ NL @
       ascii ''Permit: unknown'' @ NL @
       ascii ''Type: text'' @ NL @ NL @
       ascii ''Flags:'' @ NL @
       BULLET @ ascii '' No data source connected yet (MVP).''"
proof -
  have a: "format_card i r = join NL
       ([CHECK_MARK @ ascii '' Check #'' @ str_int i,
         [],
         ascii ''Unit: '' @ dict_get (unit_number r) EM_DASH,
         ascii ''Building: '' @ dict_get (building r) EM_DASH,
         ascii ''Project: '' @ dict_get (project r) EM_DASH,
         ascii ''Community: '' @ dict_get (community r) EM_DASH,
         ascii ''Permit: '' @ dict_get (permit_status r) (ascii ''unknown''),
         ascii ''Type: '' @ dict_get (input_type r) EM_DASH,
         [],
         ascii ''Flags:''] @
        (case dict_get (flags r) [] of
           [] \<Rightarrow> [EM_DASH]
         | f # fs \<Rightarrow> map (\<lambda>x. BULLET @ ascii '' '' @ x) (f # fs)))"
  proof (cases "dict_get (flags r) []")
    case Nil
    then show ?thesis by (simp add: format_card_def)
  next
    case (Cons f fs)
    then show ?thesis by (simp add: format_card_def join_Cons)
  qed
  have s7: "str_int 7 = ascii ''7''"
    by (simp add: str_int_def ascii_def)
  have b: "format_card 7
         \<lparr> unit_number = Some (ascii ''5''), building = Some EM_DASH, project = Some EM_DASH,
           community = Some EM_DASH, permit_status = Some (ascii ''unknown''),
           input_type = Some (ascii ''text''),
           flags = Some [ascii ''No data source connected yet (MVP).''] \<rparr> =
       CHECK_MARK @ ascii '' Check #7'' @ NL @ NL @
       ascii ''Unit: 5'' @ NL @
       ascii ''Building: '' @ EM_DASH @ NL @
       ascii ''Project: '' @ EM_DASH @ NL @
       ascii ''Community: '' @ EM_DASH @ NL @
       ascii ''Permit: unknown'' @ NL @
       ascii ''Type: text'' @ NL @ NL @
       ascii ''Flags:'' @ NL @
       BULLET @ ascii '' No data source connected yet (MVP).''"
    by (simp add: format_card_def dict_get_def s7) (simp add: ascii_def)
  from a b show ?thesis by (simp add: dict_get_def)
qed

section \<open>The last checks of a user\<close>

lemma select_recent_empty_iff:
  "select_recent d u (Suc n) = [] \<longleftrightarrow> filter (\<lambda>r. user_id r = u) (checks d) = []"
proof -
  have "sort_key row_id xs = [] \<longleftrightarrow> xs = []" for xs :: "check_row list"
    by (metis length_sort length_0_conv)
  then show ?thesis by (simp add: select_recent_def take_Suc split: list.splits)
qed

text \<open>
  Claim C8. For an allowed user, \<open>/last\<close> sends one reply and leaves the database as it
  was. If the table holds no row of the user the reply is \<open>Nog geen checks.\<close>; otherwise
  it is a header line followed by one line for each of the at most 5 rows of the user
  with the largest ids, newest first, of the form \<open>#id\<close>, U+2014, the first 60
  characters of the payload, and \<open>created_at\<close> in parentheses.
\<close>

theorem cmd_last_reply:
  assumes "effective_user upd = Some u" and "message upd = Some m" and "is_allowed allowed u"
  shows "cmd_last allowed upd d =
           Inr ([if filter (\<lambda>r. user_id r = u) (checks d) = [] then ascii ''Nog geen checks.''
                 else join NL
                   ((CLOCK_NINE @ ascii '' Laatste checks:'') #
                    map (\<lambda>(i, pl, ts). ascii ''#'' @ str_int i @ ascii '' '' @ EM_DASH @ ascii '' '' @
                                         take 60 pl @ ascii '' ('' @ ts @ ascii '')'')
                      (take 5 (map (\<lambda>r. (row_id r, payload r, created_at r))
                         (rev (sort_key row_id (filter (\<lambda>r. user_id r = u) (checks d)))))))],
                d)"
proof -
  have e: "select_recent d u 5 = [] \<longleftrightarrow> filter (\<lambda>r. user_id r = u) (checks d) = []"
    using select_recent_empty_iff [of d u 4] by (simp add: eval_nat_numeral)
  have l: "last_line = (\<lambda>(i, pl, ts). ascii ''#'' @ str_int i @ ascii '' '' @ EM_DASH @ ascii '' '' @
                                         take 60 pl @ ascii '' ('' @ ts @ ascii '')'')"
    by (rule ext) (simp add: last_line_def)
  show ?thesis
    using assms e unfolding cmd_last_def l Let_def
    by (simp add: select_recent_def)
qed

text \<open>
  A table with two rows of user 42 and one row of user 7, and the fresh database.
\<close>

theorem cmd_last_reply_witness:
  "is_allowed {} 42 \<and>
   cmd_last {} \<lparr> effective_user = Some 42, message = Some \<lparr> msg_text = Some (ascii ''/last'') \<rparr> \<rparr>
     \<lparr> checks = [\<lparr> row_id = 1, user_id = 42, payload = ascii ''a'', created_at = ascii ''t1'' \<rparr>,
                  \<lparr> row_id = 2, user_id = 7, payload = ascii ''x'', created_at = ascii ''t2'' \<rparr>,
                  \<lparr> row_id = 3, user_id = 42, payload = ascii ''b'', created_at = ascii ''t3'' \<rparr>],
       seq = 3 \<rparr> =
   Inr ([CLOCK_NINE @ ascii '' Laatste checks:'' @ NL @
         ascii ''#3 '' @ EM_DASH @ ascii '' b (t3)'' @ NL @
         ascii ''#1 '' @ EM_DASH @ ascii '' a (t1)''],
     \<lparr> checks = [\<lparr> row_id = 1, user_id = 42, payload = ascii ''a'', created_at = ascii ''t1'' \<rparr>,
                  \<lparr> row_id = 2, user_id = 7, payload = ascii ''x'', created_at = ascii ''t2'' \<rparr>,
                  \<lparr> row_id = 3, user_id = 42, payload = ascii ''b'', created_at = ascii ''t3'' \<rparr>],
       seq = 3 \<rparr>) \<and>
   cmd_last {} \<lparr> effective_user = Some 42, message = Some \<lparr> msg_text = Some (ascii ''/last'') \<rparr> \<rparr>
     (init_db None) = Inr ([ascii ''Nog geen checks.''], init_db None)"
proof -
  have al: "is_allowed {} 42" by (simp add: is_allowed_def)
  have s3: "str_int 3 = ascii ''3''" and s1: "str_int 1 = ascii ''1''"
    by (simp_all add: str_int_def ascii_def)
  show ?thesis
    using al
      cmd_last_reply [of "\<lparr> effective_user = Some 42, message = Some \<lparr> msg_text = Some (ascii ''/last'') \<rparr> \<rparr>"
        42 "\<lparr> msg_text = Some (ascii ''/last'') \<rparr>" "{}"
        "\<lparr> checks = [\<lparr> row_id = 1, user_id = 42, payload = ascii ''a'', created_at = ascii ''t1'' \<rparr>,
                  \<lparr> row_id = 2, user_id = 7, payload = ascii ''x'', created_at = ascii ''t2'' \<rparr>,
                  \<lparr> row_id = 3, user_id = 42, payload = ascii ''b'', created_at = ascii ''t3'' \<rparr>],
       seq = 3 \<rparr>"]
      cmd_last_reply [of "\<lparr> effective_user = Some 42, message = Some \<lparr> msg_text = Some (ascii ''/last'') \<rparr> \<rparr>"
        42 "\<lparr> msg_text = Some (ascii ''/last'') \<rparr>" "{}" "init_db None"]
    by (simp add: s3 s1 init_db_def) (simp add: ascii_def)
qed

section \<open>End to end: a listing link\<close>

lemma detect_listing_99:
  "detect_type (ascii ''https://example.com/listing/99'') = ascii ''listing_url''"
  by (simp add: detect_type_def strip_def is_space_def re_match_def URL_RE_def lits.simps
      ignorecase_class_def ascii_def Let_def)

lemma lookup_listing_99:
  "fake_lookup (ascii ''https://example.com/listing/99'') itype =
     \<lparr> unit_number = Some EM_DASH, building = Some EM_DASH, project = Some EM_DASH,
       community = Some EM_DASH, permit_status = Some (ascii ''unknown''),
       input_type = Some itype, flags = Some [ascii ''No data source connected yet (MVP).''] \<rparr>"
  by (simp add: fake_lookup_def re_search_def UNIT_RE_def lits.simps ignorecase_class_def
      ascii_def Let_def)

lemma strip_listing_99:
  "strip (ascii ''https://example.com/listing/99'') = ascii ''https://example.com/listing/99''"
  by (simp add: strip_def is_space_def ascii_def)

text \<open>
  Claim C5. An allowed user 42 sends \<open>https://example.com/listing/99\<close> to the fresh
  database. The text is classified as \<open>listing_url\<close>, the enrichment finds no unit, the
  row inserted has id 1, and the handler sends one reply, which contains \<open>Check #1\<close>,
  \<open>Type: listing_url\<close>, \<open>Unit:\<close> followed by U+2014, and the sender's user id in the
  debug line.
\<close>

theorem end_to_end_listing_url:
  assumes "is_allowed allowed 42"
  shows "let reply =
               ascii ''(debug) your_user_id=42'' @ NL @ NL @
               CHECK_MARK @ ascii '' Check #1'' @ NL @ NL @
               ascii ''Unit: '' @ EM_DASH @ NL @
               ascii ''Building: '' @ EM_DASH @ NL @
               ascii ''Project: '' @ EM_DASH @ NL @
               ascii ''Community: '' @ EM_DASH @ NL @
               ascii ''Permit: unknown'' @ NL @
               ascii ''Type: listing_url'' @ NL @ NL @
               ascii ''Flags:'' @ NL @
               BULLET @ ascii '' No data source connected yet (MVP).''
         in on_text allowed now
              \<lparr> effective_user = Some 42,
                message = Some \<lparr> msg_text = Some (ascii ''https://example.com/listing/99'') \<rparr> \<rparr>
              (init_db None) =
            Inr ([reply],
                 \<lparr> checks = [\<lparr> row_id = 1, user_id = 42,
                                payload = ascii ''https://example.com/listing/99'',
                                created_at = now @ ascii ''Z'' \<rparr>],
                   seq = 1 \<rparr>)
          \<and> detect_type (ascii ''https://example.com/listing/99'') = ascii ''listing_url''
          \<and> unit_number (fake_lookup (ascii ''https://example.com/listing/99'') (ascii ''listing_url''))
              = Some EM_DASH
          \<and> sublist (ascii ''Check #1'') reply
          \<and> sublist (ascii ''Type: listing_url'') reply
          \<and> sublist (ascii ''Unit: '' @ EM_DASH) reply
          \<and> sublist (ascii ''your_user_id=42'') reply"
proof -
  have s42: "str_int 42 = ascii ''42''" and s1: "str_int 1 = ascii ''1''"
    by (simp_all add: str_int_def ascii_def)
  have run: "on_text allowed now
           \<lparr> effective_user = Some 42,
             message = Some \<lparr> msg_text = Some (ascii ''https://example.com/listing/99'') \<rparr> \<rparr>
           (init_db None) =
         Inr ([ascii ''(debug) your_user_id='' @ str_int 42 @ NL @ NL @
               format_card 1 (fake_lookup (ascii ''https://example.com/listing/99'') (ascii ''listing_url''))],
              \<lparr> checks = [\<lparr> row_id = 1, user_id = 42,
                             payload = ascii ''https://example.com/listing/99'',
                             created_at = now @ ascii ''Z'' \<rparr>],
                seq = 1 \<rparr>)"
    using assms
    by (simp add: on_text_def strip_listing_99 detect_listing_99 insert_check_def init_db_def Let_def)
  have card: "ascii ''(debug) your_user_id='' @ str_int 42 @ NL @ NL @
               format_card 1 (fake_lookup (ascii ''https://example.com/listing/99'') (ascii ''listing_url''))
       = ascii ''(debug) your_user_id=42'' @ NL @ NL @
               CHECK_MARK @ ascii '' Check #1'' @ NL @ NL @
               ascii ''Unit: '' @ EM_DASH @ NL @
               ascii ''Building: '' @ EM_DASH @ NL @
               ascii ''Project: '' @ EM_DASH @ NL @
               ascii ''Community: '' @ EM_DASH @ NL @
               ascii ''Permit: unknown'' @ NL @
               ascii ''Type: listing_url'' @ NL @ NL @
               ascii ''Flags:'' @ NL @
               BULLET @ ascii '' No data source connected yet (MVP).''"
    unfolding lookup_listing_99 s42
    by (simp add: format_card_def dict_get_def s1) (simp add: ascii_def)
  show ?thesis
    unfolding Let_def run card
    by (simp add: detect_listing_99 lookup_listing_99)
      (simp add: sublist_Cons_right ascii_def NL_def EM_DASH_def CHECK_MARK_def BULLET_def)
qed

text \<open>The scenario with the allow-set \<open>{42}\<close>.\<close>

theorem end_to_end_listing_url_witness:
  "is_allowed {42} 42 \<and>
   on_text {42} (ascii ''2024-05-01T10:00:00'')
     \<lparr> effective_user = Some 42,
       message = Some \<lparr> msg_text = Some (ascii ''https://example.com/listing/99'') \<rparr> \<rparr>
     (init_db None) =
   Inr ([ascii ''(debug) your_user_id=42'' @ NL @ NL @
         CHECK_MARK @ ascii '' Check #1'' @ NL @ NL @
         ascii ''Unit: '' @ EM_DASH @ NL @
         ascii ''Building: '' @ EM_DASH @ NL @
         ascii ''Project: '' @ EM_DASH @ NL @
         ascii ''Community: '' @ EM_DASH @ NL @
         ascii ''Permit: unknown'' @ NL @
         ascii ''Type: listing_url'' @ NL @ NL @
         ascii ''Flags:'' @ NL @
         BULLET @ ascii '' No data source connected yet (MVP).''],
        \<lparr> checks = [\<lparr> row_id = 1, user_id = 42,
                       payload = ascii ''https://example.com/listing/99'',
                       created_at = ascii ''2024-05-01T10:00:00'' @ ascii ''Z'' \<rparr>],
          seq = 1 \<rparr>)"
proof -
  have al: "is_allowed {42} 42" by (simp add: is_allowed_def)
  from al end_to_end_listing_url [OF al, of "ascii ''2024-05-01T10:00:00''"]
  show ?thesis unfolding Let_def by blast
qed


section \<open>Store: ids and retrieval\<close>

lemma fold_max_bounds:
  fixes a :: int
  shows "a \<le> fold max xs a \<and> (\<forall>x\<in>set xs. x \<le> fold max xs a)"
proof (induction xs arbitrary: a)
  case Nil
  show ?case by simp
next
  case (Cons y ys)
  from Cons.IH [of "max y a"] show ?case by auto
qed

lemma new_id_above:
  "r \<in> set (checks d) \<Longrightarrow> row_id r < snd (insert_check d u pl ts)"
  using fold_max_bounds [of "seq d" "map row_id (checks d)"]
  by (auto simp: insert_check_def Let_def)

lemma insort_key_snoc:
  "f x \<le> f r \<Longrightarrow> insort_key f x (ys @ [r]) = insort_key f x ys @ [r]"
  by (induction ys) auto

lemma sort_key_snoc:
  "\<forall>x\<in>set xs. f x \<le> f r \<Longrightarrow> sort_key f (xs @ [r]) = sort_key f xs @ [r]"
  by (induction xs) (auto simp: insort_key_snoc)

lemma select_recent_after_insert:
  "select_recent (fst (insert_check d u pl ts)) u (Suc n) =
     (snd (insert_check d u pl ts), pl, ts) # select_recent d u n"
proof -
  let ?new = "snd (insert_check d u pl ts)"
  let ?row = "\<lparr> row_id = ?new, user_id = u, payload = pl, created_at = ts \<rparr>"
  let ?F = "filter (\<lambda>r. user_id r = u) (checks d)"
  have c: "checks (fst (insert_check d u pl ts)) = checks d @ [?row]"
    by (simp add: insert_check_def Let_def)
  have "\<forall>x\<in>set ?F. row_id x \<le> row_id ?row"
    using new_id_above [of _ d u pl ts] by fastforce
  then have "sort_key row_id (?F @ [?row]) = sort_key row_id ?F @ [?row]"
    by (rule sort_key_snoc)
  then show ?thesis
    unfolding select_recent_def c by simp
qed

lemma ids_increasing_insert:
  assumes "ids_increasing d"
  shows "ids_increasing (fst (insert_check d u pl ts))"
proof -
  have c: "map row_id (checks (fst (insert_check d u pl ts))) =
           map row_id (checks d) @ [snd (insert_check d u pl ts)]"
    by (simp add: insert_check_def Let_def)
  show ?thesis
    using assms new_id_above [of _ d u pl ts]
    unfolding ids_increasing_def c by (auto simp: sorted_wrt_append)
qed

lemma select_recent_descending:
  assumes "ids_increasing d"
  shows "sorted_wrt (>) (map fst (select_recent d u n))"
proof -
  let ?F = "filter (\<lambda>r. user_id r = u) (checks d)"
  have "distinct (map row_id (checks d))"
    using assms by (simp add: ids_increasing_def strict_sorted_iff)
  then have "distinct (map row_id ?F)" by (rule distinct_map_filter)
  then have "distinct ?F \<and> inj_on row_id (set ?F)"
    by (simp add: distinct_map)
  then have "distinct (map row_id (sort_key row_id ?F))"
    by (simp add: distinct_map)
  moreover have "sorted (map row_id (sort_key row_id ?F))" by (rule sorted_sort_key)
  ultimately have "sorted_wrt (<) (map row_id (sort_key row_id ?F))"
    by (simp add: strict_sorted_iff)
  then have "sorted_wrt (>) (rev (map row_id (sort_key row_id ?F)))"
    by (simp add: sorted_wrt_rev)
  then have "sorted_wrt (>) (take n (rev (map row_id (sort_key row_id ?F))))"
    by (rule sorted_wrt_take)
  moreover have "map fst (select_recent d u n) = take n (rev (map row_id (sort_key row_id ?F)))"
    by (simp add: select_recent_def take_map rev_map comp_def)
  ultimately show ?thesis by simp
qed

lemma select_recent_length:
  "length (select_recent d u n) = min n (length (filter (\<lambda>r. user_id r = u) (checks d)))"
  by (simp add: select_recent_def min.commute)

lemma select_recent_prefix:
  "select_recent d u n = take n (select_recent d u (length (checks d)))"
proof -
  have "length (filter (\<lambda>r. user_id r = u) (checks d)) \<le> length (checks d)"
    by (rule length_filter_le)
  then show ?thesis by (simp add: select_recent_def)
qed

lemma select_recent_all_mset:
  "mset (select_recent d u (length (checks d))) =
     mset (map (\<lambda>r. (row_id r, payload r, created_at r))
            (filter (\<lambda>r. user_id r = u) (checks d)))"
proof -
  have "length (filter (\<lambda>r. user_id r = u) (checks d)) \<le> length (checks d)"
    by (rule length_filter_le)
  then show ?thesis by (simp add: select_recent_def)
qed

lemma select_recent_nonincreasing:
  "sorted_wrt (\<ge>) (map fst (select_recent d u n))"
proof -
  let ?F = "filter (\<lambda>r. user_id r = u) (checks d)"
  have "sorted (map row_id (sort_key row_id ?F))" by (rule sorted_sort_key)
  then have "sorted_wrt (\<ge>) (rev (map row_id (sort_key row_id ?F)))"
    by (simp add: sorted_wrt_rev)
  then have "sorted_wrt (\<ge>) (take n (rev (map row_id (sort_key row_id ?F))))"
    by (rule sorted_wrt_take)
  moreover have "map fst (select_recent d u n) = take n (rev (map row_id (sort_key row_id ?F)))"
    by (simp add: select_recent_def take_map rev_map comp_def)
  ultimately show ?thesis by simp
qed

lemma select_recent_newest:
  assumes "ids_increasing d"
  shows "select_recent d u n =
           take n (map (\<lambda>r. (row_id r, payload r, created_at r))
                     (rev (filter (\<lambda>r. user_id r = u) (checks d))))"
proof -
  let ?F = "filter (\<lambda>r. user_id r = u) (checks d)"
  from assms have "sorted (map row_id (checks d))"
    by (simp add: ids_increasing_def strict_sorted_iff)
  then have "sorted (map row_id ?F)" by (rule sorted_filter)
  then have "sort_key row_id ?F = ?F" by (rule sort_key_id_if_sorted)
  then show ?thesis by (simp add: select_recent_def)
qed

text \<open>
  Claim C4. The ids of the fresh table increase strictly in insertion order, and an
  insertion keeps this, so ids are unique. The id that an insertion assigns is larger
  than every id in the table, and the id of the next insertion is larger again. After
  the insertion of \<open>(user, payload, ts)\<close>, the query for that user with limit 1 returns
  exactly the row just inserted, and with limit \<open>n + 1\<close> that row followed by what the
  query with limit \<open>n\<close> returned before. For every user and limit \<open>n\<close> the query returns
  at most \<open>n\<close> rows, exactly \<open>n\<close> or all rows of the user if those are fewer, each of
  them a row of the table with that user id, in descending order of id, and no row
  when the table holds none of that user. Which rows: without a limit the query returns
  every row of the user once, and with limit \<open>n\<close> the first \<open>n\<close> of these; on a table
  whose ids increase in insertion order these are the \<open>n\<close> rows of the user inserted
  last, the newest first.
\<close>

theorem store_contract:
  "ids_increasing (init_db None)
   \<and> (ids_increasing d \<longrightarrow> ids_increasing (fst (insert_check d u pl ts)))
   \<and> (ids_increasing d \<longrightarrow> distinct (map row_id (checks d)))
   \<and> (\<forall>r\<in>set (checks d). row_id r < snd (insert_check d u pl ts))
   \<and> snd (insert_check d u pl ts) < snd (insert_check (fst (insert_check d u pl ts)) u' pl' ts')
   \<and> select_recent (fst (insert_check d u pl ts)) u 1 = [(snd (insert_check d u pl ts), pl, ts)]
   \<and> length (select_recent d u n) \<le> n
   \<and> (\<forall>x\<in>set (select_recent d u n).
        \<exists>r\<in>set (checks d). user_id r = u \<and> x = (row_id r, payload r, created_at r))
   \<and> (ids_increasing d \<longrightarrow> sorted_wrt (>) (map fst (select_recent d u n)))
   \<and> (filter (\<lambda>r. user_id r = u) (checks d) = [] \<longrightarrow> select_recent d u n = [])
   \<and> length (select_recent d u n) = min n (length (filter (\<lambda>r. user_id r = u) (checks d)))
   \<and> sorted_wrt (\<ge>) (map fst (select_recent d u n))
   \<and> select_recent d u n = take n (select_recent d u (length (checks d)))
   \<and> mset (select_recent d u (length (checks d))) =
       mset (map (\<lambda>r. (row_id r, payload r, created_at r))
              (filter (\<lambda>r. user_id r = u) (checks d)))
   \<and> (ids_increasing d \<longrightarrow>
        select_recent d u n =
          take n (map (\<lambda>r. (row_id r, payload r, created_at r))
                    (rev (filter (\<lambda>r. user_id r = u) (checks d)))))
   \<and> select_recent (fst (insert_check d u pl ts)) u (Suc n) =
       (snd (insert_check d u pl ts), pl, ts) # select_recent d u n"
proof -
  have a: "ids_increasing (init_db None)"
    by (simp add: ids_increasing_def init_db_def)
  have b: "ids_increasing d \<longrightarrow> distinct (map row_id (checks d))"
    by (simp add: ids_increasing_def strict_sorted_iff)
  have c: "\<forall>r\<in>set (checks d). row_id r < snd (insert_check d u pl ts)"
    using new_id_above by blast
  have d: "snd (insert_check d u pl ts) < snd (insert_check (fst (insert_check d u pl ts)) u' pl' ts')"
    using new_id_above [of "\<lparr> row_id = snd (insert_check d u pl ts), user_id = u, payload = pl,
        created_at = ts \<rparr>" "fst (insert_check d u pl ts)" u' pl' ts']
    by (simp add: insert_check_def Let_def)
  have e: "select_recent (fst (insert_check d u pl ts)) u 1 = [(snd (insert_check d u pl ts), pl, ts)]"
    using select_recent_after_insert [of d u pl ts 0] by (simp add: select_recent_def)
  have f: "length (select_recent d u n) \<le> n"
    by (simp add: select_recent_def)
  have g: "\<forall>x\<in>set (select_recent d u n).
        \<exists>r\<in>set (checks d). user_id r = u \<and> x = (row_id r, payload r, created_at r)"
  proof
    fix x assume "x \<in> set (select_recent d u n)"
    then have "x \<in> set (map (\<lambda>r. (row_id r, payload r, created_at r))
       (rev (sort_key row_id (filter (\<lambda>r. user_id r = u) (checks d)))))"
      unfolding select_recent_def by (rule in_set_takeD)
    then show "\<exists>r\<in>set (checks d). user_id r = u \<and> x = (row_id r, payload r, created_at r)"
      by auto
  qed
  have h: "filter (\<lambda>r. user_id r = u) (checks d) = [] \<longrightarrow> select_recent d u n = []"
    by (simp add: select_recent_def)
  have i: "ids_increasing d \<longrightarrow> ids_increasing (fst (insert_check d u pl ts))"
    using ids_increasing_insert by blast
  have j: "ids_increasing d \<longrightarrow> sorted_wrt (>) (map fst (select_recent d u n))"
    using select_recent_descending by blast
  have k: "length (select_recent d u n) = min n (length (filter (\<lambda>r. user_id r = u) (checks d)))"
    by (rule select_recent_length)
  have l: "sorted_wrt (\<ge>) (map fst (select_recent d u n))"
    by (rule select_recent_nonincreasing)
  have m: "select_recent d u n = take n (select_recent d u (length (checks d)))"
    by (rule select_recent_prefix)
  have o: "mset (select_recent d u (length (checks d))) =
       mset (map (\<lambda>r. (row_id r, payload r, created_at r))
              (filter (\<lambda>r. user_id r = u) (checks d)))"
    by (rule select_recent_all_mset)
  have p: "ids_increasing d \<longrightarrow>
        select_recent d u n =
          take n (map (\<lambda>r. (row_id r, payload r, created_at r))
                    (rev (filter (\<lambda>r. user_id r = u) (checks d))))"
    using select_recent_newest by blast
  have q: "select_recent (fst (insert_check d u pl ts)) u (Suc n) =
       (snd (insert_check d u pl ts), pl, ts) # select_recent d u n"
    by (rule select_recent_after_insert)
  show ?thesis
    by (intro conjI a i b c d e f g j h k l m o p q)
qed

text \<open>
  A table with the ids 1 to 4, of which 1, 3 and 4 belong to user 42. Its ids increase;
  the query for user 42 with limit 2 returns the rows 4 and 3, in this order, and with
  limit 5 the rows 4, 3 and 1; user 9, who has no row, gets the empty result. User 42
  inserts and gets id 5, the ids still increase, the query with limit 1 returns the new
  row and the query with limit 3 returns the rows 5, 4 and 3.
\<close>

theorem store_contract_witness:
  "ids_increasing \<lparr> checks = [\<lparr> row_id = 1, user_id = 42, payload = ascii ''a'', created_at = ascii ''t1'' \<rparr>,
                  \<lparr> row_id = 2, user_id = 7, payload = ascii ''x'', created_at = ascii ''t2'' \<rparr>,
                  \<lparr> row_id = 3, user_id = 42, payload = ascii ''b'', created_at = ascii ''t3'' \<rparr>,
                  \<lparr> row_id = 4, user_id = 42, payload = ascii ''c'', created_at = ascii ''t4'' \<rparr>],
       seq = 4 \<rparr> \<and>
   select_recent \<lparr> checks = [\<lparr> row_id = 1, user_id = 42, payload = ascii ''a'', created_at = ascii ''t1'' \<rparr>,
                  \<lparr> row_id = 2, user_id = 7, payload = ascii ''x'', created_at = ascii ''t2'' \<rparr>,
                  \<lparr> row_id = 3, user_id = 42, payload = ascii ''b'', created_at = ascii ''t3'' \<rparr>,
                  \<lparr> row_id = 4, user_id = 42, payload = ascii ''c'', created_at = ascii ''t4'' \<rparr>],
       seq = 4 \<rparr> 42 2 = [(4, ascii ''c'', ascii ''t4''), (3, ascii ''b'', ascii ''t3'')] \<and>
   select_recent \<lparr> checks = [\<lparr> row_id = 1, user_id = 42, payload = ascii ''a'', created_at = ascii ''t1'' \<rparr>,
                  \<lparr> row_id = 2, user_id = 7, payload = ascii ''x'', created_at = ascii ''t2'' \<rparr>,
                  \<lparr> row_id = 3, user_id = 42, payload = ascii ''b'', created_at = ascii ''t3'' \<rparr>,
                  \<lparr> row_id = 4, user_id = 42, payload = ascii ''c'', created_at = ascii ''t4'' \<rparr>],
       seq = 4 \<rparr> 42 5 =
     [(4, ascii ''c'', ascii ''t4''), (3, ascii ''b'', ascii ''t3''), (1, ascii ''a'', ascii ''t1'')] \<and>
   select_recent \<lparr> checks = [\<lparr> row_id = 1, user_id = 42, payload = ascii ''a'', created_at = ascii ''t1'' \<rparr>,
                  \<lparr> row_id = 2, user_id = 7, payload = ascii ''x'', created_at = ascii ''t2'' \<rparr>,
                  \<lparr> row_id = 3, user_id = 42, payload = ascii ''b'', created_at = ascii ''t3'' \<rparr>,
                  \<lparr> row_id = 4, user_id = 42, payload = ascii ''c'', created_at = ascii ''t4'' \<rparr>],
       seq = 4 \<rparr> 9 5 = [] \<and>
   insert_check \<lparr> checks = [\<lparr> row_id = 1, user_id = 42, payload = ascii ''a'', created_at = ascii ''t1'' \<rparr>,
                  \<lparr> row_id = 2, user_id = 7, payload = ascii ''x'', created_at = ascii ''t2'' \<rparr>,
                  \<lparr> row_id = 3, user_id = 42, payload = ascii ''b'', created_at = ascii ''t3'' \<rparr>,
                  \<lparr> row_id = 4, user_id = 42, payload = ascii ''c'', created_at = ascii ''t4'' \<rparr>],
       seq = 4 \<rparr> 42 (ascii ''d'') (ascii ''t5'') = (\<lparr> checks = [\<lparr> row_id = 1, user_id = 42, payload = ascii ''a'', created_at = ascii ''t1'' \<rparr>,
                  \<lparr> row_id = 2, user_id = 7, payload = ascii ''x'', created_at = ascii ''t2'' \<rparr>,
                  \<lparr> row_id = 3, user_id = 42, payload = ascii ''b'', created_at = ascii ''t3'' \<rparr>,
                  \<lparr> row_id = 4, user_id = 42, payload = ascii ''c'', created_at = ascii ''t4'' \<rparr>,
                  \<lparr> row_id = 5, user_id = 42, payload = ascii ''d'', created_at = ascii ''t5'' \<rparr>],
       seq = 5 \<rparr>, 5) \<and>
   ids_increasing \<lparr> checks = [\<lparr> row_id = 1, user_id = 42, payload = ascii ''a'', created_at = ascii ''t1'' \<rparr>,
                  \<lparr> row_id = 2, user_id = 7, payload = ascii ''x'', created_at = ascii ''t2'' \<rparr>,
                  \<lparr> row_id = 3, user_id = 42, payload = ascii ''b'', created_at = ascii ''t3'' \<rparr>,
                  \<lparr> row_id = 4, user_id = 42, payload = ascii ''c'', created_at = ascii ''t4'' \<rparr>,
                  \<lparr> row_id = 5, user_id = 42, payload = ascii ''d'', created_at = ascii ''t5'' \<rparr>],
       seq = 5 \<rparr> \<and>
   select_recent \<lparr> checks = [\<lparr> row_id = 1, user_id = 42, payload = ascii ''a'', created_at = ascii ''t1'' \<rparr>,
                  \<lparr> row_id = 2, user_id = 7, payload = ascii ''x'', created_at = ascii ''t2'' \<rparr>,
                  \<lparr> row_id = 3, user_id = 42, payload = ascii ''b'', created_at = ascii ''t3'' \<rparr>,
                  \<lparr> row_id = 4, user_id = 42, payload = ascii ''c'', created_at = ascii ''t4'' \<rparr>,
                  \<lparr> row_id = 5, user_id = 42, payload = ascii ''d'', created_at = ascii ''t5'' \<rparr>],
       seq = 5 \<rparr> 42 1 = [(5, ascii ''d'', ascii ''t5'')] \<and>
   select_recent \<lparr> checks = [\<lparr> row_id = 1, user_id = 42, payload = ascii ''a'', created_at = ascii ''t1'' \<rparr>,
                  \<lparr> row_id = 2, user_id = 7, payload = ascii ''x'', created_at = ascii ''t2'' \<rparr>,
                  \<lparr> row_id = 3, user_id = 42, payload = ascii ''b'', created_at = ascii ''t3'' \<rparr>,
                  \<lparr> row_id = 4, user_id = 42, payload = ascii ''c'', created_at = ascii ''t4'' \<rparr>,
                  \<lparr> row_id = 5, user_id = 42, payload = ascii ''d'', created_at = ascii ''t5'' \<rparr>],
       seq = 5 \<rparr> 42 3 =
     [(5, ascii ''d'', ascii ''t5''), (4, ascii ''c'', ascii ''t4''), (3, ascii ''b'', ascii ''t3'')]"
proof -
  let ?d = "\<lparr> checks = [\<lparr> row_id = 1, user_id = 42, payload = ascii ''a'', created_at = ascii ''t1'' \<rparr>,
                  \<lparr> row_id = 2, user_id = 7, payload = ascii ''x'', created_at = ascii ''t2'' \<rparr>,
                  \<lparr> row_id = 3, user_id = 42, payload = ascii ''b'', created_at = ascii ''t3'' \<rparr>,
                  \<lparr> row_id = 4, user_id = 42, payload = ascii ''c'', created_at = ascii ''t4'' \<rparr>],
       seq = 4 \<rparr>"
  let ?d5 = "\<lparr> checks = [\<lparr> row_id = 1, user_id = 42, payload = ascii ''a'', created_at = ascii ''t1'' \<rparr>,
                  \<lparr> row_id = 2, user_id = 7, payload = ascii ''x'', created_at = ascii ''t2'' \<rparr>,
                  \<lparr> row_id = 3, user_id = 42, payload = ascii ''b'', created_at = ascii ''t3'' \<rparr>,
                  \<lparr> row_id = 4, user_id = 42, payload = ascii ''c'', created_at = ascii ''t4'' \<rparr>,
                  \<lparr> row_id = 5, user_id = 42, payload = ascii ''d'', created_at = ascii ''t5'' \<rparr>],
       seq = 5 \<rparr>"
  note t2 = store_contract [of ?d 42 "ascii ''d''" "ascii ''t5''" 42 "ascii ''e''" "ascii ''t6''" 2]
  note t5 = store_contract [of ?d 42 "ascii ''d''" "ascii ''t5''" 42 "ascii ''e''" "ascii ''t6''" 5]
  note t9 = store_contract [of ?d 9 "ascii ''d''" "ascii ''t5''" 42 "ascii ''e''" "ascii ''t6''" 5]
  have inc: "ids_increasing ?d" by (simp add: ids_increasing_def)
  have ins: "insert_check ?d 42 (ascii ''d'') (ascii ''t5'') = (?d5, 5)"
    by (simp add: insert_check_def Let_def)
  have emp: "filter (\<lambda>r. user_id r = 9) (checks ?d) = []" by simp
  from t2 inc have "select_recent ?d 42 2 =
      take 2 (map (\<lambda>r. (row_id r, payload r, created_at r))
                (rev (filter (\<lambda>r. user_id r = 42) (checks ?d))))"
    by blast
  then have w1: "select_recent ?d 42 2 =
      [(4, ascii ''c'', ascii ''t4''), (3, ascii ''b'', ascii ''t3'')]"
    by simp
  from t5 inc have "select_recent ?d 42 5 =
      take 5 (map (\<lambda>r. (row_id r, payload r, created_at r))
                (rev (filter (\<lambda>r. user_id r = 42) (checks ?d))))"
    by blast
  then have w2: "select_recent ?d 42 5 =
      [(4, ascii ''c'', ascii ''t4''), (3, ascii ''b'', ascii ''t3''), (1, ascii ''a'', ascii ''t1'')]"
    by simp
  from t9 emp have w3: "select_recent ?d 9 5 = []"
    by blast
  from t2 inc have "ids_increasing (fst (insert_check ?d 42 (ascii ''d'') (ascii ''t5'')))"
    by blast
  then have w4: "ids_increasing ?d5"
    unfolding ins by simp
  from t2 have "select_recent (fst (insert_check ?d 42 (ascii ''d'') (ascii ''t5''))) 42 1 =
      [(snd (insert_check ?d 42 (ascii ''d'') (ascii ''t5'')), ascii ''d'', ascii ''t5'')]"
    by blast
  then have w5: "select_recent ?d5 42 1 = [(5, ascii ''d'', ascii ''t5'')]"
    unfolding ins by simp
  from t2 have "select_recent (fst (insert_check ?d 42 (ascii ''d'') (ascii ''t5''))) 42 (Suc 2) =
      (snd (insert_check ?d 42 (ascii ''d'') (ascii ''t5'')), ascii ''d'', ascii ''t5'') #
      select_recent ?d 42 2"
    by blast
  then have w6: "select_recent ?d5 42 3 =
      [(5, ascii ''d'', ascii ''t5''), (4, ascii ''c'', ascii ''t4''), (3, ascii ''b'', ascii ''t3'')]"
    unfolding ins w1 by (simp add: eval_nat_numeral)
  from inc w1 w2 w3 ins w4 w5 w6 show ?thesis
    by (intro conjI)
qed


section \<open>Enricher: the search for a unit number\<close>

lemma sep_match: "item_match True (In ''-_/ '') c \<longleftrightarrow> c \<in> set separators"
  by (auto simp: separators_def ignorecase_class_def)

lemma sep_not_decimal: "c \<in> set separators \<Longrightarrow> \<not> is_decimal c"
  by (auto simp: separators_def is_decimal_def decimal_ranges_def)

lemma run_digits_none:
  "takeWhile is_decimal r = [] \<Longrightarrow> run ic (Grp n (Rep (Suc 0) None Digit)) (q, r, g) = []"
  by (simp add: item_match_Digit)

lemma run_digits_some:
  assumes "takeWhile is_decimal r \<noteq> []"
  shows "\<exists>st rest. run ic (Grp n (Rep (Suc 0) None Digit)) (q, r, g) = st # rest \<and>
           group n st = Some (takeWhile is_decimal r)"
proof -
  let ?k = "length (takeWhile is_decimal r)"
  from assms have k: "0 < ?k" by simp
  then have "[Suc 0..<Suc ?k] = [Suc 0..<?k] @ [?k]" by (simp add: Suc_le_eq)
  then have r: "rev [Suc 0..<Suc ?k] = ?k # rev [Suc 0..<?k]"
    by (simp only: rev_append rev.simps append.simps)
  have t: "take ?k r = takeWhile is_decimal r"
    by (rule takeWhile_eq_take [symmetric])
  have "run ic (Rep (Suc 0) None Digit) (q, r, g) =
          map (\<lambda>j. (q + j, drop j r, g)) (rev [Suc 0..<Suc ?k])"
    unfolding run.simps item_match_Digit Let_def by simp
  then have "run ic (Rep (Suc 0) None Digit) (q, r, g) =
          (q + ?k, drop ?k r, g) # map (\<lambda>j. (q + j, drop j r, g)) (rev [Suc 0..<?k])"
    unfolding r by simp
  then have "run ic (Grp n (Rep (Suc 0) None Digit)) (q, r, g) =
          (q + ?k, drop ?k r, g(n \<mapsto> takeWhile is_decimal r)) #
          map (\<lambda>(p', s', g'). (p', s', g'(n \<mapsto> take (p' - q) r)))
            (map (\<lambda>j. (q + j, drop j r, g)) (rev [Suc 0..<?k]))"
    unfolding run.simps(7) by (simp add: t)
  then show ?thesis by simp
qed

lemma run_tail:
  "(digits_after r = None \<longrightarrow>
      run True (Seq (Rep 0 (Some (Suc 0)) (In ''-_/ '')) (Grp 2 (Rep (Suc 0) None Digit))) (q, r, g) = []) \<and>
   (\<forall>ds. digits_after r = Some ds \<longrightarrow>
      (\<exists>st rest. run True (Seq (Rep 0 (Some (Suc 0)) (In ''-_/ '')) (Grp 2 (Rep (Suc 0) None Digit))) (q, r, g)
          = st # rest \<and> group 2 st = Some ds))"
proof (cases r)
  case Nil
  then show ?thesis
    by (simp add: digits_after_def run_optional run_digits_none del: run.simps(7,8) item_match.simps)
next
  case (Cons c cs)
  show ?thesis
  proof (cases "c \<in> set separators")
    case sep: True
    then have nd: "takeWhile is_decimal (c # cs) = []" by (simp add: sep_not_decimal)
    show ?thesis
    proof (cases "takeWhile is_decimal cs = []")
      case True
      with Cons sep nd show ?thesis
        by (simp add: digits_after_def run_optional sep_match run_digits_none del: run.simps(7,8) item_match.simps)
    next
      case False
      from run_digits_some [OF False, of True 2 "Suc q" g]
      obtain st rest where "run True (Grp 2 (Rep (Suc 0) None Digit)) (Suc q, cs, g) = st # rest"
        and "group 2 st = Some (takeWhile is_decimal cs)" by blast
      with Cons sep False show ?thesis
        by (simp add: digits_after_def run_optional sep_match del: run.simps(7,8) item_match.simps)
    qed
  next
    case nosep: False
    show ?thesis
    proof (cases "takeWhile is_decimal (c # cs) = []")
      case True
      with Cons nosep show ?thesis
        by (simp add: digits_after_def run_optional sep_match run_digits_none del: run.simps(7,8) item_match.simps)
    next
      case False
      from run_digits_some [OF False, of True 2 q g]
      obtain st rest where "run True (Grp 2 (Rep (Suc 0) None Digit)) (q, c # cs, g) = st # rest"
        and "group 2 st = Some (takeWhile is_decimal (c # cs))" by blast
      with Cons nosep False show ?thesis
        by (simp add: digits_after_def run_optional sep_match del: run.simps(7,8) item_match.simps)
    qed
  qed
qed

lemma run_unit_re:
  "run True UNIT_RE (p, s, g) =
     concat (map (\<lambda>w. if lit_prefix True w s
                      then run True (Seq (Rep 0 (Some (Suc 0)) (In ''-_/ ''))
                                         (Grp 2 (Rep (Suc 0) None Digit)))
                             (p + length w, drop (length w) s, g(1 \<mapsto> take (length w) s))
                      else []) unit_words)"
proof -
  have grp: "run True
        (Grp 1 (Alt (lits ''unit'') (Alt (lits ''apt'') (Alt (lits ''apartment'') (lits ''flat'')))))
        (p, s, g) =
      concat (map (\<lambda>w. if lit_prefix True w s
                           then [(p + length w, drop (length w) s, g(1 \<mapsto> take (length w) s))]
                           else []) unit_words)"
    by (simp add: run_lits unit_words_def eval_nat_numeral)
  show ?thesis
    unfolding UNIT_RE_def run.simps(5) grp
    by (simp add: unit_words_def del: run.simps)
qed

lemma first_of_words:
  assumes "\<And>w. w \<in> set ws \<Longrightarrow>
             (D w = None \<longrightarrow> R w = []) \<and>
             (\<forall>ds. D w = Some ds \<longrightarrow> (\<exists>st rest. R w = st # rest \<and> group 2 st = Some ds))"
  shows "case List.map_filter D ws of
           [] \<Rightarrow> concat (map R ws) = []
         | ds # _ \<Rightarrow> \<exists>st rest. concat (map R ws) = st # rest \<and> group 2 st = Some ds"
  using assms
proof (induction ws)
  case Nil
  show ?case by (simp add: map_filter_simps)
next
  case (Cons w ws)
  have ih: "case List.map_filter D ws of
           [] \<Rightarrow> concat (map R ws) = []
         | ds # _ \<Rightarrow> \<exists>st rest. concat (map R ws) = st # rest \<and> group 2 st = Some ds"
    using Cons by simp
  have hw: "(D w = None \<longrightarrow> R w = []) \<and>
             (\<forall>ds. D w = Some ds \<longrightarrow> (\<exists>st rest. R w = st # rest \<and> group 2 st = Some ds))"
    using Cons.prems by simp
  show ?case
  proof (cases "D w")
    case None
    with hw ih show ?thesis by (simp add: map_filter_simps split: list.splits)
  next
    case (Some ds)
    with hw obtain st rest where "R w = st # rest" "group 2 st = Some ds" by blast
    with Some show ?thesis by (simp add: map_filter_simps)
  qed
qed

lemma run_unit_at:
  "(unit_at s = None \<longrightarrow> run True UNIT_RE (p, s, g) = []) \<and>
   (\<forall>ds. unit_at s = Some ds \<longrightarrow>
      (\<exists>st rest. run True UNIT_RE (p, s, g) = st # rest \<and> group 2 st = Some ds))"
proof -
  let ?R = "\<lambda>w. if lit_prefix True w s
                      then run True (Seq (Rep 0 (Some (Suc 0)) (In ''-_/ ''))
                                         (Grp 2 (Rep (Suc 0) None Digit)))
                             (p + length w, drop (length w) s, g(1 \<mapsto> take (length w) s))
                      else []"
  have "(word_then_digits s w = None \<longrightarrow> ?R w = []) \<and>
        (\<forall>ds. word_then_digits s w = Some ds \<longrightarrow>
           (\<exists>st rest. ?R w = st # rest \<and> group 2 st = Some ds))" for w
    using run_tail [of "drop (length w) s" "p + length w" "g(1 \<mapsto> take (length w) s)"]
    by (simp add: word_then_digits_def del: run.simps)
  then have "case List.map_filter (word_then_digits s) unit_words of
           [] \<Rightarrow> concat (map ?R unit_words) = []
         | ds # _ \<Rightarrow> \<exists>st rest. concat (map ?R unit_words) = st # rest \<and> group 2 st = Some ds"
    by (intro first_of_words) blast
  then show ?thesis
    unfolding run_unit_re unit_at_def by (simp split: list.splits)
qed

lemma unit_at_Nil: "unit_at [] = None"
  by (simp add: unit_at_def unit_words_def word_then_digits_def map_filter_simps)

lemma search_first_unit:
  "(case search_from True UNIT_RE p s of None \<Rightarrow> None | Some st \<Rightarrow> group 2 st) = first_unit s"
proof (induction s arbitrary: p)
  case Nil
  from run_unit_at [of "[]" p Map.empty] show ?case by (simp add: unit_at_Nil)
next
  case (Cons x xs)
  show ?case
  proof (cases "unit_at (x # xs)")
    case None
    with run_unit_at [of "x # xs" p Map.empty] Cons.IH [of "Suc p"] show ?thesis by simp
  next
    case (Some ds)
    with run_unit_at [of "x # xs" p Map.empty]
    obtain st rest where "run True UNIT_RE (p, x # xs, Map.empty) = st # rest"
      and "group 2 st = Some ds" by blast
    with Some show ?thesis by simp
  qed
qed

lemma map_filter_head: "List.map_filter f xs = y # ys \<Longrightarrow> \<exists>x\<in>set xs. f x = Some y"
  by (induction xs) (auto simp: map_filter_simps split: option.splits)

lemma first_unit_nonempty: "first_unit s = Some ds \<Longrightarrow> ds \<noteq> []"
proof (induction s)
  case Nil
  then show ?case by simp
next
  case (Cons x xs)
  show ?case
  proof (cases "unit_at (x # xs)")
    case None
    with Cons show ?thesis by simp
  next
    case (Some e)
    with Cons.prems have "e = ds" by simp
    with Some obtain w where "word_then_digits (x # xs) w = Some ds"
      unfolding unit_at_def using map_filter_head
      by (fastforce split: list.splits)
    then show ?thesis
      by (auto simp: word_then_digits_def digits_after_def Let_def split: if_splits)
  qed
qed

text \<open>
  Claim C2. \<open>fake_lookup\<close> is a total function and equals the reference definition
  \<open>enrich_spec\<close> on every text and category. The unit number is looked for at the first
  place of the text where one of the words \<open>unit\<close>, \<open>apt\<close>, \<open>apartment\<close>, \<open>flat\<close> stands
  (ignoring case, as \<open>re.IGNORECASE\<close> does), followed by at most one separator from
  \<open>-\<close>, \<open>_\<close>, \<open>/\<close>, space and then immediately by one or more digits (the class \<open>\d\<close>);
  it is that run of digits if there is such a place and U+2014 otherwise. \<open>building\<close>,
  \<open>project\<close> and \<open>community\<close> are U+2014, \<open>permit_status\<close> is \<open>unknown\<close>, \<open>flags\<close> is
  the one notice, and \<open>input_type\<close> is the category given. For \<open>apt-12\<close> the unit
  number is \<open>12\<close>, for \<open>no unit info\<close> it is U+2014.
\<close>

theorem fake_lookup_refines_spec:
  "fake_lookup inp category = enrich_spec inp category
   \<and> unit_number (fake_lookup inp category) =
       Some (case first_unit inp of None \<Rightarrow> EM_DASH | Some ds \<Rightarrow> ds)
   \<and> building (fake_lookup inp category) = Some EM_DASH
   \<and> project (fake_lookup inp category) = Some EM_DASH
   \<and> community (fake_lookup inp category) = Some EM_DASH
   \<and> permit_status (fake_lookup inp category) = Some (ascii ''unknown'')
   \<and> flags (fake_lookup inp category) = Some [ascii ''No data source connected yet (MVP).'']
   \<and> input_type (fake_lookup inp category) = Some category
   \<and> unit_number (fake_lookup (ascii ''apt-12'') (ascii ''text'')) = Some (ascii ''12'')
   \<and> unit_number (fake_lookup (ascii ''no unit info'') (ascii ''text'')) = Some EM_DASH"
proof -
  have u: "unit_number (fake_lookup s c) =
       Some (case first_unit s of None \<Rightarrow> EM_DASH | Some ds \<Rightarrow> ds)" for s c
  proof -
    have "(case re_search True UNIT_RE s of None \<Rightarrow> None | Some st \<Rightarrow> group 2 st) = first_unit s"
      unfolding re_search_def by (rule search_first_unit)
    then show ?thesis
      using first_unit_nonempty [of s]
      by (auto simp: fake_lookup_def Let_def split: option.splits)
  qed
  have e1: "first_unit (ascii ''apt-12'') = Some (ascii ''12'')"
    by (simp add: ascii_def unit_at_def unit_words_def word_then_digits_def map_filter_simps
        digits_after_def separators_def ignorecase_class_def is_decimal_def decimal_ranges_def Let_def)
  have e2: "first_unit (ascii ''no unit info'') = None"
    by (simp add: ascii_def unit_at_def unit_words_def word_then_digits_def map_filter_simps
        digits_after_def separators_def ignorecase_class_def is_decimal_def decimal_ranges_def Let_def)
  have "fake_lookup inp category = enrich_spec inp category"
    using u [of inp category] by (simp add: fake_lookup_def enrich_spec_def Let_def)
  with u [of inp category] u [of "ascii ''apt-12''" "ascii ''text''"]
    u [of "ascii ''no unit info''" "ascii ''text''"] e1 e2
  show ?thesis by (simp add: enrich_spec_def)
qed

end
